theory Spec2Isabelle
  imports Complex_Main "HOL-Library.Sublist"
begin

section \<open>Python string operations used by the script\<close>

text \<open>
  A cell is a Python \<open>str\<close>. The model keeps one \<^typ>\<open>char\<close> per code point and so
  covers the strings over the code points 0 to 255; \<open>str.lower\<close> and \<open>str.strip\<close> are
  written out for that range as CPython defines them there.
\<close>

definition isspace :: "char \<Rightarrow> bool" where
  \<comment> \<open>the characters \<open>str.strip()\<close> removes: tab to carriage return, the four
      separators below the blank, the blank, NEL and the no-break space\<close>
  "isspace c =
     (let n = (of_char c :: nat)
      in (9 \<le> n \<and> n \<le> 13) \<or> (28 \<le> n \<and> n \<le> 32) \<or> n = 133 \<or> n = 160)"

definition lower_char :: "char \<Rightarrow> char" where
  \<comment> \<open>\<open>A\<close> to \<open>Z\<close>, and the capital letters of the upper half (all of 192 to 222 but
      the multiplication sign 215), move up by 32; every other character stays\<close>
  "lower_char c =
     (let n = (of_char c :: nat)
      in if (65 \<le> n \<and> n \<le> 90) \<or> (192 \<le> n \<and> n \<le> 214) \<or> (216 \<le> n \<and> n \<le> 222)
         then char_of (n + 32) else c)"

definition lower :: "string \<Rightarrow> string" where
  "lower s = map lower_char s"

definition strip :: "string \<Rightarrow> string" where
  "strip s = rev (dropWhile isspace (rev (dropWhile isspace s)))"

fun join :: "string \<Rightarrow> string list \<Rightarrow> string" where
  "join sep [] = []"
| "join sep [x] = x"
| "join sep (x # y # ys) = x @ sep @ join sep (y # ys)"

definition startswith :: "string \<Rightarrow> string \<Rightarrow> bool" where
  \<comment> \<open>\<open>s.startswith(f)\<close>\<close>
  "startswith s f = (take (length f) s = f)"

fun contains :: "string \<Rightarrow> string \<Rightarrow> bool" where
  \<comment> \<open>\<open>k in s\<close> on strings: \<open>k\<close> occurs in \<open>s\<close> as a contiguous run\<close>
  "contains [] k = (k = [])"
| "contains (c # cs) k = (startswith (c # cs) k \<or> contains cs k)"

definition any :: "('a \<Rightarrow> bool) \<Rightarrow> 'a list \<Rightarrow> bool" where
  \<comment> \<open>\<open>any(p(x) for x in xs)\<close>\<close>
  "any p xs = list_ex p xs"

section \<open>Row filtering\<close>

definition allow_keywords :: "string list" where
  "allow_keywords =
     [''utstein'', ''location of arrest'', ''arrest witnessed'', ''bystander cpr'',
      ''cpr'', ''aed'', ''hypothermia'', ''neurological'', ''category'',
      ''initial arrest rhythm'', ''shockable'']"

definition banned_fragments :: "string list" where
  "banned_fragments =
     [''survival to'', ''total n'', ''rosc'', ''cpc'', ''admission'', ''discharge'',
      ''sample ems'', ''page'', ''report'', ''cares'', ''data definitions'']"

definition footnote_starts :: "string list" where
  "footnote_starts = [''inclusion criteria'', ''*bystander'', ''april'']"

definition joined_of :: "string list \<Rightarrow> string" where
  \<comment> \<open>\<open>" ".join(cell.lower().strip() for cell in row)\<close>\<close>
  "joined_of row = join '' '' (map (\<lambda>cell. strip (lower cell)) row)"

definition is_valid_data_row :: "string list \<Rightarrow> bool" where
  "is_valid_data_row row =
     (let joined = joined_of row
      in if any (\<lambda>f. startswith joined f) footnote_starts then False
         else if any (\<lambda>k. contains joined k) banned_fragments then False
         else if any (\<lambda>k. contains joined k) allow_keywords then True
         else if length (filter (\<lambda>c. strip c \<noteq> []) row) \<le> 1 then False
         else True)"

section \<open>Letter case\<close>



section \<open>Row extraction\<close>

text \<open>
  A word is one of the dictionaries returned by \<open>page.extract_words\<close>. The script reads
  two of its keys; \<open>None\<close> stands for an absent key. A vertical offset is a finite float,
  kept here as the rational number it denotes. A page is modelled by the words that
  \<open>extract_words(x_tolerance=2, y_tolerance=2, keep_blank_chars=True, use_text_flow=True)\<close>
  returns for it, in the order returned.
\<close>

record word =
  word_top :: "rat option"
  word_text :: "string option"

type_synonym page = "word list"

definition round_half_even :: "rat \<Rightarrow> int" where
  "round_half_even q =
     (let f = \<lfloor>q\<rfloor>; d = q - of_int f
      in if d < 1 / 2 then f else if 1 / 2 < d then f + 1 else if even f then f else f + 1)"

definition round1 :: "rat \<Rightarrow> rat" where
  \<comment> \<open>\<open>round(x, 1)\<close>: the exact value of \<open>x\<close> rounded to a multiple of one tenth, ties to
      the even tenth. Python returns the float nearest to that multiple; below the
      magnitudes where floats are coarser than a tenth, distinct multiples give distinct
      floats in the same order, so equality and order of the keys are those of the
      multiples.\<close>
  "round1 x = of_int (round_half_even (x * 10)) / 10"

fun setdefault_append :: "'k \<Rightarrow> 'a \<Rightarrow> ('k \<times> 'a list) list \<Rightarrow> ('k \<times> 'a list) list" where
  \<comment> \<open>\<open>d.setdefault(y, []).append(t)\<close> on a dictionary kept as the list of its items in
      insertion order\<close>
  "setdefault_append y t [] = [(y, [t])]"
| "setdefault_append y t ((k, v) # d) =
     (if k = y then (k, v @ [t]) # d else (k, v) # setdefault_append y t d)"

definition add_word :: "(rat \<times> string list) list \<Rightarrow> word \<Rightarrow> (rat \<times> string list) list" where
  \<comment> \<open>the body of the loop over \<open>words\<close>\<close>
  "add_word lines_by_y w =
     (case word_top w of
        None \<Rightarrow> lines_by_y
      | Some tp \<Rightarrow>
          (case word_text w of
             None \<Rightarrow> lines_by_y
           | Some tx \<Rightarrow> setdefault_append (round1 tp) tx lines_by_y))"

definition lines_by_y :: "page \<Rightarrow> (rat \<times> string list) list" where
  \<comment> \<open>the dictionary when the loop has ended\<close>
  "lines_by_y words = foldl add_word [] words"

definition row_offsets :: "page \<Rightarrow> rat list" where
  \<comment> \<open>\<open>sorted(lines_by_y.keys())\<close>\<close>
  "row_offsets words = sort (map fst (lines_by_y words))"

definition extract_text_rows :: "page \<Rightarrow> string list list" where
  \<comment> \<open>\<open>[lines_by_y[y] for y in sorted(lines_by_y.keys())]\<close>; every \<open>y\<close> is a key, so the
      lookup is defined (lemma \<open>row_offsets_are_keys\<close>)\<close>
  "extract_text_rows words = map (\<lambda>y. the (map_of (lines_by_y words) y)) (row_offsets words)"

subsection \<open>The same loop, recording positions\<close>

text \<open>
  To speak of which fragments share a row, the loop is run once more with the position
  of each word in \<open>words\<close> appended in place of its text.
\<close>

definition add_position :: "(rat \<times> nat list) list \<Rightarrow> nat \<times> word \<Rightarrow> (rat \<times> nat list) list" where
  "add_position d iw =
     (case word_top (snd iw) of
        None \<Rightarrow> d
      | Some tp \<Rightarrow>
          (case word_text (snd iw) of
             None \<Rightarrow> d
           | Some tx \<Rightarrow> setdefault_append (round1 tp) (fst iw) d))"

definition positions_by_y :: "page \<Rightarrow> (rat \<times> nat list) list" where
  "positions_by_y words = foldl add_position [] (enumerate 0 words)"

definition extract_position_rows :: "page \<Rightarrow> nat list list" where
  "extract_position_rows words =
     map (\<lambda>y. the (map_of (positions_by_y words) y)) (sort (map fst (positions_by_y words)))"

definition complete_word :: "word \<Rightarrow> bool" where
  \<comment> \<open>\<open>'top' in word and 'text' in word\<close>\<close>
  "complete_word w = (word_top w \<noteq> None \<and> word_text w \<noteq> None)"

definition rounded_offset :: "word \<Rightarrow> rat option" where
  "rounded_offset w = map_option round1 (word_top w)"

definition text_of :: "word \<Rightarrow> string" where
  "text_of w = (case word_text w of None \<Rightarrow> [] | Some tx \<Rightarrow> tx)"

definition texts_at :: "rat \<Rightarrow> page \<Rightarrow> string list" where
  \<comment> \<open>the texts of the fragments with both attributes whose rounded offset is \<open>y\<close>, in page order\<close>
  "texts_at y words =
     map text_of (filter (\<lambda>w. complete_word w \<and> rounded_offset w = Some y) words)"

section \<open>The run\<close>

datatype error = ValueError string | IndexError | OpenError

record data_frame =
  df_columns :: "string list"
  df_rows :: "string list list"

record csv_file =
  file_name :: string
  header_row :: "string list"
  data_rows :: "string list list"

record world =
  pdf_accessed :: bool
  written :: "csv_file list"
  printed :: "string list"

definition getitem :: "'a list \<Rightarrow> int \<Rightarrow> error + 'a" where
  \<comment> \<open>\<open>xs[i]\<close> on a Python list (\<open>pdf.pages\<close> is one): a negative index counts from
      the end, an index outside \<open>-len(xs) .. len(xs) - 1\<close> raises\<close>
  "getitem xs i =
     (let n = int (length xs)
      in if 0 \<le> i \<and> i < n then Inr (xs ! nat i)
         else if - n \<le> i \<and> i < 0 then Inr (xs ! nat (n + i))
         else Inl IndexError)"

definition list_times :: "'a list \<Rightarrow> int \<Rightarrow> 'a list" where
  \<comment> \<open>\<open>xs * n\<close> on a Python list: empty when \<open>n\<close> is zero or negative\<close>
  "list_times xs n = (if n \<le> 0 then [] else concat (replicate (nat n) xs))"

definition pad_row :: "nat \<Rightarrow> string list \<Rightarrow> string list" where
  \<comment> \<open>\<open>r + [""] * (max_cols - len(r))\<close>\<close>
  "pad_row max_cols r = r @ list_times [''''] (int max_cols - int (length r))"

definition normalized_rows :: "string list \<Rightarrow> page \<Rightarrow> string list list" where
  "normalized_rows headers words =
     (let raw_rows = extract_text_rows words; max_cols = length headers
      in map (pad_row max_cols) raw_rows)"

definition filtered_rows :: "string list \<Rightarrow> page \<Rightarrow> string list list" where
  "filtered_rows headers words = filter is_valid_data_row (normalized_rows headers words)"

function str_nat :: "nat \<Rightarrow> string" where
  "str_nat n =
     (if n < 10 then [char_of (48 + n)] else str_nat (n div 10) @ [char_of (48 + n mod 10)])"
  by pat_completeness auto
termination
  by (relation "measure (\<lambda>n. n)") auto

definition str_int :: "int \<Rightarrow> string" where
  \<comment> \<open>\<open>str(i)\<close>, as the f-string formats \<open>page_num + 1\<close>\<close>
  "str_int i = (if i < 0 then CHR ''-'' # str_nat (nat (- i)) else str_nat (nat i))"

definition output_name :: "string \<Rightarrow> int \<Rightarrow> string" where
  "output_name timestamp page_num =
     ''page_'' @ str_int (page_num + 1) @ ''_cleaned_'' @ timestamp @ ''.csv''"

definition width :: "string list list \<Rightarrow> nat" where
  \<comment> \<open>the length of the longest row\<close>
  "width data = foldr (\<lambda>r m. max (length r) m) data 0"

definition DataFrame :: "string list list \<Rightarrow> string list \<Rightarrow> error + data_frame" where
  \<comment> \<open>\<open>pd.DataFrame(data, columns=cols)\<close> on a list of rows: no row gives the empty
      frame; otherwise the longest row must have as many cells as there are columns, and
      a shorter row is filled with missing values, which \<open>to_csv\<close> writes as empty fields\<close>
  "DataFrame data cols =
     (if data = [] then Inr \<lparr>df_columns = cols, df_rows = []\<rparr>
      else if width data = length cols
        then Inr \<lparr>df_columns = cols, df_rows = map (pad_row (length cols)) data\<rparr>
      else Inl (ValueError (str_int (int (length cols)) @ '' columns passed, passed data had ''
                  @ str_int (int (width data)) @ '' columns'')))"

definition to_csv :: "data_frame \<Rightarrow> string \<Rightarrow> csv_file" where
  \<comment> \<open>\<open>df.to_csv(name, index=False)\<close>: the header row, then the rows\<close>
  "to_csv df name = \<lparr>file_name = name, header_row = df_columns df, data_rows = df_rows df\<rparr>"

fun process_pages ::
  "string \<Rightarrow> page list \<Rightarrow> string list list \<Rightarrow> (nat \<times> int) list \<Rightarrow> world \<Rightarrow> world \<times> error option" where
  \<comment> \<open>the loop \<open>for idx, page_num in enumerate(page_numbers)\<close>; an exception ends it
      with the state reached so far\<close>
  "process_pages timestamp pdf all_headers [] w = (w, None)"
| "process_pages timestamp pdf all_headers ((idx, page_num) # rest) w =
     (case getitem all_headers (int idx) of
        Inl e \<Rightarrow> (w, Some e)
      | Inr headers \<Rightarrow>
          (case getitem pdf page_num of
             Inl e \<Rightarrow> (w, Some e)
           | Inr page \<Rightarrow>
               (case DataFrame (filtered_rows headers page) headers of
                  Inl e \<Rightarrow> (w, Some e)
                | Inr df \<Rightarrow>
                    process_pages timestamp pdf all_headers rest
                      (w\<lparr>written := written w @ [to_csv df (output_name timestamp page_num)],
                         printed := printed w @ [''Saved: '' @ output_name timestamp page_num]\<rparr>))))"

definition main :: "string \<Rightarrow> page list option \<Rightarrow> int list \<Rightarrow> string list list \<Rightarrow> world \<times> error option" where
  \<comment> \<open>the script from the parsed arguments on: \<open>timestamp\<close> is what \<open>datetime.now()\<close>
      formats to, \<open>pdf_file\<close> holds the pages of the document at \<open>args.pdf\<close> (\<open>None\<close> when
      \<open>pdfplumber.open\<close> raises), \<open>pages\<close> is \<open>args.pages\<close> and \<open>all_headers\<close> is
      \<open>args.headers\<close>.\<close>
  "main timestamp pdf_file pages all_headers =
     (let page_numbers = map (\<lambda>p. p - 1) pages;
          w0 = \<lparr>pdf_accessed = False, written = [], printed = []\<rparr>
      in if length all_headers \<noteq> length page_numbers
         then (w0, Some (ValueError ''Number of --headers sets must match number of --pages.''))
         else (case pdf_file of
                 None \<Rightarrow> (w0\<lparr>pdf_accessed := True\<rparr>, Some OpenError)
               | Some pdf \<Rightarrow>
                   process_pages timestamp pdf all_headers (enumerate 0 page_numbers)
                     (w0\<lparr>pdf_accessed := True\<rparr>)))"

section \<open>Notions used to state the properties of the extraction\<close>

definition ins :: "('k \<times> 'a list) list \<Rightarrow> 'k \<times> 'a \<Rightarrow> ('k \<times> 'a list) list" where
  "ins d e = setdefault_append (fst e) (snd e) d"

definition text_entries :: "page \<Rightarrow> (rat \<times> string) list" where
  \<comment> \<open>the key and the text that each word with both attributes adds, in page order\<close>
  "text_entries words =
     concat (map (\<lambda>w. case word_top w of
                         None \<Rightarrow> []
                       | Some tp \<Rightarrow> (case word_text w of None \<Rightarrow> [] | Some tx \<Rightarrow> [(round1 tp, tx)]))
                 words)"

definition pos_entries :: "(nat \<times> word) list \<Rightarrow> (rat \<times> nat) list" where
  "pos_entries iws =
     concat (map (\<lambda>iw. case word_top (snd iw) of
                          None \<Rightarrow> []
                        | Some tp \<Rightarrow> (case word_text (snd iw) of None \<Rightarrow> [] | Some tx \<Rightarrow> [(round1 tp, fst iw)]))
                 iws)"

definition lookup_list :: "('k \<times> 'a list) list \<Rightarrow> 'k \<Rightarrow> 'a list" where
  "lookup_list d k = (case map_of d k of None \<Rightarrow> [] | Some vs \<Rightarrow> vs)"

definition values_at :: "'k \<Rightarrow> ('k \<times> 'a) list \<Rightarrow> 'a list" where
  "values_at k es = map snd (filter (\<lambda>e. fst e = k) es)"

section \<open>Example inputs\<close>

definition fragment :: "rat \<Rightarrow> string \<Rightarrow> word" where
  "fragment tp tx = \<lparr>word_top = Some tp, word_text = Some tx\<rparr>"

definition table_page :: page where
  \<comment> \<open>five fragments on three lines, and one fragment without a vertical offset\<close>
  "table_page =
     [fragment (2006 / 100) ''Witnessed'', fragment (1004 / 100) ''Category'',
      fragment (2007 / 100) ''Yes'', \<lparr>word_top = None, word_text = Some ''stray''\<rparr>,
      fragment (1001 / 100) ''Value'', fragment 5 ''Page 3'']"

definition title_page :: page where
  \<comment> \<open>a page with no data row\<close>
  "title_page = [fragment 30 ''CARES'', fragment 30 ''Report'', fragment 50 ''2024'']"

section \<open>Properties of the row validator\<close>










subsection \<open>The rows quoted by the specification\<close>

lemma survival_row_joined:
  "joined_of [''survival to discharge'', ''cpr''] = ''survival to discharge cpr''"
  by code_simp

lemma survival_row_banned:
  "any (\<lambda>k. contains ''survival to discharge cpr'' k) banned_fragments"
  by code_simp

lemma survival_row_allowed:
  "any (\<lambda>k. contains ''survival to discharge cpr'' k) allow_keywords"
  by code_simp

lemma utstein_row_joined: "joined_of [''Utstein'', '''', ''''] = ''utstein  ''"
  by code_simp

lemma utstein_row_allowed: "any (\<lambda>k. contains ''utstein  '' k) allow_keywords"
  by code_simp

lemma utstein_row_not_banned: "\<not> any (\<lambda>k. contains ''utstein  '' k) banned_fragments"
  by code_simp

lemma utstein_row_no_footnote: "\<not> any (\<lambda>f. startswith ''utstein  '' f) footnote_starts"
  by code_simp

lemma utstein_row_sparse:
  "length (filter (\<lambda>c. strip c \<noteq> []) [''Utstein'', '''', '''']) \<le> 1"
  by code_simp

lemma inclusion_row_joined:
  "joined_of [''Inclusion criteria: adult patients only'', '''']
     = ''inclusion criteria: adult patients only ''"
  by code_simp

lemma inclusion_row_footnote:
  "any (\<lambda>f. startswith ''inclusion criteria: adult patients only '' f) footnote_starts"
  by code_simp

lemma inclusion_cpr_row_joined:
  "joined_of [''Inclusion criteria'', ''CPR'', ''AED''] = ''inclusion criteria cpr aed''"
  by code_simp

lemma inclusion_cpr_row_footnote:
  "any (\<lambda>f. startswith ''inclusion criteria cpr aed'' f) footnote_starts"
  by code_simp

lemma inclusion_cpr_row_allowed:
  "any (\<lambda>k. contains ''inclusion criteria cpr aed'' k) allow_keywords"
  by code_simp

text \<open>
  C3. A row whose joined lower-case string contains a banned fragment is rejected, also
  when the string contains an allow-keyword: the banned-fragment check comes before the
  allow-keyword check. The row \<open>["survival to discharge", "cpr"]\<close> contains both a banned
  fragment and an allow-keyword, and is rejected.
\<close>

theorem banned_fragment_rejects:
  "(any (\<lambda>k. contains (joined_of row) k) banned_fragments \<longrightarrow> is_valid_data_row row = False)
   \<and> any (\<lambda>k. contains (joined_of [''survival to discharge'', ''cpr'']) k) banned_fragments
   \<and> any (\<lambda>k. contains (joined_of [''survival to discharge'', ''cpr'']) k) allow_keywords
   \<and> is_valid_data_row [''survival to discharge'', ''cpr''] = False"
proof -
  have general: "is_valid_data_row r = False"
    if "any (\<lambda>k. contains (joined_of r) k) banned_fragments" for r
    using that by (simp add: is_valid_data_row_def Let_def)
  have b: "any (\<lambda>k. contains (joined_of [''survival to discharge'', ''cpr'']) k) banned_fragments"
    unfolding survival_row_joined by (rule survival_row_banned)
  have a: "any (\<lambda>k. contains (joined_of [''survival to discharge'', ''cpr'']) k) allow_keywords"
    unfolding survival_row_joined by (rule survival_row_allowed)
  from general [OF b] general a b show ?thesis by blast
qed

theorem banned_fragment_rejects_witness:
  "any (\<lambda>k. contains (joined_of [''Total N'', ''Category'']) k) banned_fragments
   \<and> any (\<lambda>k. contains (joined_of [''Total N'', ''Category'']) k) allow_keywords
   \<and> is_valid_data_row [''Total N'', ''Category''] = False"
proof -
  have j: "joined_of [''Total N'', ''Category''] = ''total n category''"
    by code_simp
  have b: "any (\<lambda>k. contains ''total n category'' k) banned_fragments"
    by code_simp
  have a: "any (\<lambda>k. contains ''total n category'' k) allow_keywords"
    by code_simp
  from banned_fragment_rejects [of "[''Total N'', ''Category'']"] a b
  show ?thesis unfolding j by blast
qed

text \<open>
  C4. A row whose joined lower-case string contains an allow-keyword, starts with no
  footnote prefix and contains no banned fragment is accepted, whatever the number of its
  non-empty cells. The row \<open>["Utstein", "", ""]\<close> has one non-empty cell and is accepted.
\<close>

theorem allow_keyword_accepts:
  "(any (\<lambda>k. contains (joined_of row) k) allow_keywords
      \<and> \<not> any (\<lambda>f. startswith (joined_of row) f) footnote_starts
      \<and> \<not> any (\<lambda>k. contains (joined_of row) k) banned_fragments
      \<longrightarrow> is_valid_data_row row = True)
   \<and> length (filter (\<lambda>c. strip c \<noteq> []) [''Utstein'', '''', '''']) \<le> 1
   \<and> is_valid_data_row [''Utstein'', '''', ''''] = True"
proof -
  have general: "is_valid_data_row r = True"
    if "any (\<lambda>k. contains (joined_of r) k) allow_keywords"
      and "\<not> any (\<lambda>f. startswith (joined_of r) f) footnote_starts"
      and "\<not> any (\<lambda>k. contains (joined_of r) k) banned_fragments" for r
    using that by (simp add: is_valid_data_row_def Let_def)
  have "is_valid_data_row [''Utstein'', '''', ''''] = True"
    by (rule general) (simp_all only: utstein_row_joined utstein_row_allowed
        utstein_row_no_footnote utstein_row_not_banned not_False_eq_True)
  with general utstein_row_sparse show ?thesis by blast
qed

theorem allow_keyword_accepts_witness:
  "any (\<lambda>k. contains (joined_of [''  AED'', '' '']) k) allow_keywords
   \<and> \<not> any (\<lambda>f. startswith (joined_of [''  AED'', '' '']) f) footnote_starts
   \<and> \<not> any (\<lambda>k. contains (joined_of [''  AED'', '' '']) k) banned_fragments
   \<and> length (filter (\<lambda>c. strip c \<noteq> []) [''  AED'', '' '']) \<le> 1
   \<and> is_valid_data_row [''  AED'', '' ''] = True"
proof -
  have j: "joined_of [''  AED'', '' ''] = ''aed ''"
    by code_simp
  have a: "any (\<lambda>k. contains ''aed '' k) allow_keywords"
    by code_simp
  have f: "\<not> any (\<lambda>f. startswith ''aed '' f) footnote_starts"
    by code_simp
  have b: "\<not> any (\<lambda>k. contains ''aed '' k) banned_fragments"
    by code_simp
  have s: "length (filter (\<lambda>c. strip c \<noteq> []) [''  AED'', '' '']) \<le> 1"
    by code_simp
  from allow_keyword_accepts [of "[''  AED'', '' '']"] a f b s
  show ?thesis unfolding j by blast
qed

text \<open>
  C5. A row whose joined lower-case string starts with one of the footnote prefixes
  \<open>"inclusion criteria"\<close>, \<open>"*bystander"\<close>, \<open>"april"\<close> is rejected, whatever else the row
  holds. The row \<open>["Inclusion criteria: adult patients only", ""]\<close> is rejected.
\<close>

theorem footnote_prefix_rejects:
  "footnote_starts = [''inclusion criteria'', ''*bystander'', ''april'']
   \<and> (any (\<lambda>f. startswith (joined_of row) f) footnote_starts \<longrightarrow> is_valid_data_row row = False)
   \<and> is_valid_data_row [''Inclusion criteria: adult patients only'', ''''] = False"
proof -
  have general: "is_valid_data_row r = False"
    if "any (\<lambda>f. startswith (joined_of r) f) footnote_starts" for r
    using that by (simp add: is_valid_data_row_def Let_def)
  have "is_valid_data_row [''Inclusion criteria: adult patients only'', ''''] = False"
    by (rule general) (simp only: inclusion_row_joined inclusion_row_footnote)
  with general footnote_starts_def show ?thesis by blast
qed

theorem footnote_prefix_rejects_witness:
  "any (\<lambda>f. startswith (joined_of [''Inclusion criteria'', ''CPR'', ''AED'']) f) footnote_starts
   \<and> any (\<lambda>k. contains (joined_of [''Inclusion criteria'', ''CPR'', ''AED'']) k) allow_keywords
   \<and> is_valid_data_row [''Inclusion criteria'', ''CPR'', ''AED''] = False"
  using footnote_prefix_rejects [of "[''Inclusion criteria'', ''CPR'', ''AED'']"]
    inclusion_cpr_row_footnote inclusion_cpr_row_allowed
  unfolding inclusion_cpr_row_joined by blast



section \<open>Properties of the grouping loop\<close>

lemma map_of_setdefault_append:
  "map_of (setdefault_append y t d) k
     = (if k = y then Some (lookup_list d y @ [t]) else map_of d k)"
  by (induction d) (auto simp: lookup_list_def)

lemma map_fst_setdefault_append:
  "map fst (setdefault_append y t d)
     = (if y \<in> set (map fst d) then map fst d else map fst d @ [y])"
  by (induction d) force+

lemma keys_setdefault_append:
  "fst ` set (setdefault_append y t d) = insert y (fst ` set d)"
  using map_fst_setdefault_append [of y t d]
  by (metis (no_types, lifting) insert_absorb list.set_map list.simps(15) rotate1.simps(2) set_rotate1)

lemma distinct_setdefault_append:
  "distinct (map fst d) \<Longrightarrow> distinct (map fst (setdefault_append y t d))"
  by (simp add: map_fst_setdefault_append)

lemma lookup_list_ins:
  "lookup_list (ins d e) k = lookup_list d k @ values_at k [e]"
  by (simp add: ins_def lookup_list_def values_at_def map_of_setdefault_append)

lemma lookup_list_foldl_ins:
  "lookup_list (foldl ins d es) k = lookup_list d k @ values_at k es"
proof (induction es arbitrary: d)
  case Nil
  show ?case by (simp add: values_at_def)
next
  case (Cons e es)
  have "values_at k (e # es) = values_at k [e] @ values_at k es"
    by (simp add: values_at_def)
  with Cons show ?case by (simp add: lookup_list_ins)
qed

lemma keys_foldl_ins:
  "fst ` set (foldl ins d es) = fst ` set d \<union> fst ` set es"
  by (induction es arbitrary: d) (auto simp: ins_def keys_setdefault_append)

lemma distinct_foldl_ins:
  "distinct (map fst d) \<Longrightarrow> distinct (map fst (foldl ins d es))"
  by (induction es arbitrary: d) (auto simp: ins_def distinct_setdefault_append)

lemma the_map_of_key:
  "k \<in> fst ` set d \<Longrightarrow> map_of d k = Some (lookup_list d k)"
  by (cases "map_of d k") (auto simp: lookup_list_def map_of_eq_None_iff)

lemma foldl_add_word: "foldl add_word d ws = foldl ins d (text_entries ws)"
  by (induction ws arbitrary: d)
     (auto simp: text_entries_def add_word_def ins_def split: option.splits)

lemma foldl_add_position: "foldl add_position d iws = foldl ins d (pos_entries iws)"
  by (induction iws arbitrary: d)
     (auto simp: pos_entries_def add_position_def ins_def split: option.splits)

lemma values_at_text_entries: "values_at y (text_entries ws) = texts_at y ws"
  by (induction ws)
     (auto simp: values_at_def text_entries_def texts_at_def complete_word_def rounded_offset_def
        text_of_def split: option.splits)

lemma in_text_entries:
  "(y, t) \<in> set (text_entries ws)
     \<longleftrightarrow> (\<exists>w \<in> set ws. \<exists>tp. word_top w = Some tp \<and> word_text w = Some t \<and> y = round1 tp)"
  unfolding text_entries_def
  by (simp split: option.splits) (metis option.inject option.distinct(1))

lemma keys_text_entries:
  "fst ` set (text_entries ws) = {y. \<exists>w \<in> set ws. complete_word w \<and> rounded_offset w = Some y}"
proof (rule set_eqI)
  fix y
  have "y \<in> fst ` set (text_entries ws) \<longleftrightarrow> (\<exists>t. (y, t) \<in> set (text_entries ws))"
    by force
  also have "\<dots> \<longleftrightarrow> (\<exists>w \<in> set ws. complete_word w \<and> rounded_offset w = Some y)"
    unfolding in_text_entries complete_word_def rounded_offset_def by auto
  finally show "y \<in> fst ` set (text_entries ws)
      \<longleftrightarrow> y \<in> {y. \<exists>w \<in> set ws. complete_word w \<and> rounded_offset w = Some y}"
    by simp
qed

lemma set_row_offsets:
  "set (row_offsets ws) = {y. \<exists>w \<in> set ws. complete_word w \<and> rounded_offset w = Some y}"
  unfolding row_offsets_def lines_by_y_def foldl_add_word
  using keys_foldl_ins [of "[]" "text_entries ws"] keys_text_entries [of ws] by simp

lemma row_offsets_ascending: "sorted_wrt (<) (row_offsets ws)"
proof -
  have "distinct (map fst (lines_by_y ws))"
    unfolding lines_by_y_def foldl_add_word by (rule distinct_foldl_ins) simp
  then show ?thesis
    by (simp add: row_offsets_def strict_sorted_iff)
qed

lemma row_offsets_are_keys:
  "y \<in> set (row_offsets ws) \<Longrightarrow> map_of (lines_by_y ws) y = Some (texts_at y ws)"
proof -
  assume "y \<in> set (row_offsets ws)"
  then have k: "y \<in> fst ` set (lines_by_y ws)"
    by (simp add: row_offsets_def)
  have "lookup_list (lines_by_y ws) y = texts_at y ws"
    unfolding lines_by_y_def foldl_add_word lookup_list_foldl_ins values_at_text_entries
    by (simp add: lookup_list_def)
  with the_map_of_key [OF k] show ?thesis by simp
qed

lemma extract_text_rows_by_offset:
  "extract_text_rows ws = map (\<lambda>y. texts_at y ws) (row_offsets ws)"
  unfolding extract_text_rows_def
  by (rule map_cong) (simp_all add: row_offsets_are_keys)

lemma subseq_rows: "subseq (filtered_rows hs ws) (normalized_rows hs ws)"
  by (simp add: filtered_rows_def)

subsection \<open>Rows of positions\<close>

lemma setdefault_append_map:
  "setdefault_append k (f v) (map (apsnd (map f)) d) = map (apsnd (map f)) (setdefault_append k v d)"
  by (induction d) auto

lemma foldl_ins_map:
  "foldl ins (map (apsnd (map f)) d) (map (apsnd f) es) = map (apsnd (map f)) (foldl ins d es)"
  by (induction es arbitrary: d) (auto simp: ins_def setdefault_append_map)

lemma text_entries_of_positions:
  "\<forall>iw \<in> set iws. ws ! fst iw = snd iw \<Longrightarrow>
     text_entries (map snd iws) = map (apsnd (\<lambda>i. text_of (ws ! i))) (pos_entries iws)"
  by (induction iws)
     (auto simp: text_entries_def pos_entries_def text_of_def split: option.splits)

lemma text_entries_enumerate:
  "text_entries ws = map (apsnd (\<lambda>i. text_of (ws ! i))) (pos_entries (enumerate 0 ws))"
proof -
  have "\<forall>iw \<in> set (enumerate 0 ws). ws ! fst iw = snd iw"
    by (auto simp: in_set_enumerate_eq)
  from text_entries_of_positions [OF this] show ?thesis by simp
qed

lemma lines_by_y_positions:
  "lines_by_y ws = map (apsnd (map (\<lambda>i. text_of (ws ! i)))) (positions_by_y ws)"
  unfolding lines_by_y_def positions_by_y_def foldl_add_word foldl_add_position
  using foldl_ins_map [of "\<lambda>i. text_of (ws ! i)" "[]" "pos_entries (enumerate 0 ws)"]
  by (simp add: text_entries_enumerate)

lemma map_of_apsnd: "map_of (map (apsnd g) d) k = map_option g (map_of d k)"
  by (induction d) auto

lemma extract_text_rows_positions:
  "extract_text_rows ws = map (map (\<lambda>i. text_of (ws ! i))) (extract_position_rows ws)"
proof -
  let ?d = "positions_by_y ws"
  have keys: "map fst (lines_by_y ws) = map fst ?d"
    by (simp add: lines_by_y_positions comp_def)
  have "the (map_of (lines_by_y ws) y) = map (\<lambda>i. text_of (ws ! i)) (the (map_of ?d y))"
    if "y \<in> set (sort (map fst ?d))" for y
  proof -
    from that have "y \<in> fst ` set ?d" by simp
    from the_map_of_key [OF this] show ?thesis
      by (simp add: lines_by_y_positions map_of_apsnd)
  qed
  then show ?thesis
    unfolding extract_text_rows_def extract_position_rows_def row_offsets_def keys
    by simp
qed

lemma in_pos_entries:
  "(y, i) \<in> set (pos_entries iws)
     \<longleftrightarrow> (\<exists>w. (i, w) \<in> set iws \<and> complete_word w \<and> rounded_offset w = Some y)"
proof (induction iws)
  case Nil
  show ?case by (simp add: pos_entries_def)
next
  case (Cons iw iws)
  have step: "pos_entries (iw # iws) = pos_entries [iw] @ pos_entries iws"
    by (simp add: pos_entries_def)
  have one: "(y, i) \<in> set (pos_entries [iw])
      \<longleftrightarrow> i = fst iw \<and> complete_word (snd iw) \<and> rounded_offset (snd iw) = Some y"
    by (cases "word_top (snd iw)"; cases "word_text (snd iw)")
       (auto simp: pos_entries_def complete_word_def rounded_offset_def)
  show ?case
    unfolding step set_append Un_iff Cons.IH one
    by (cases iw) auto
qed

lemma in_pos_entries_enumerate:
  "(y, i) \<in> set (pos_entries (enumerate 0 ws))
     \<longleftrightarrow> i < length ws \<and> complete_word (ws ! i) \<and> rounded_offset (ws ! i) = Some y"
  by (auto simp: in_pos_entries in_set_enumerate_eq)

lemma position_row_at:
  "y \<in> set (sort (map fst (positions_by_y ws))) \<Longrightarrow>
     the (map_of (positions_by_y ws) y) = values_at y (pos_entries (enumerate 0 ws))"
proof -
  assume "y \<in> set (sort (map fst (positions_by_y ws)))"
  then have k: "y \<in> fst ` set (positions_by_y ws)" by simp
  have "lookup_list (positions_by_y ws) y = values_at y (pos_entries (enumerate 0 ws))"
    unfolding positions_by_y_def foldl_add_position lookup_list_foldl_ins
    by (simp add: lookup_list_def)
  with the_map_of_key [OF k] show ?thesis by simp
qed

lemma position_keys:
  "set (sort (map fst (positions_by_y ws))) = fst ` set (pos_entries (enumerate 0 ws))"
  unfolding positions_by_y_def foldl_add_position
  using keys_foldl_ins [of "[]" "pos_entries (enumerate 0 ws)"] by simp

lemma in_position_row:
  "(\<exists>r \<in> set (extract_position_rows ws). i \<in> set r \<and> j \<in> set r)
     \<longleftrightarrow> (\<exists>y. (y, i) \<in> set (pos_entries (enumerate 0 ws))
              \<and> (y, j) \<in> set (pos_entries (enumerate 0 ws)))"
proof -
  let ?es = "pos_entries (enumerate 0 ws)"
  let ?ks = "sort (map fst (positions_by_y ws))"
  have rows: "extract_position_rows ws = map (\<lambda>y. values_at y ?es) ?ks"
    unfolding extract_position_rows_def
    by (rule map_cong) (simp_all only: position_row_at)
  have mem: "k \<in> set (values_at y ?es) \<longleftrightarrow> (y, k) \<in> set ?es" for y k
    by (force simp: values_at_def)
  show ?thesis
  proof
    assume "\<exists>r \<in> set (extract_position_rows ws). i \<in> set r \<and> j \<in> set r"
    then obtain y where "i \<in> set (values_at y ?es)" "j \<in> set (values_at y ?es)"
      unfolding rows by auto
    then show "\<exists>y. (y, i) \<in> set ?es \<and> (y, j) \<in> set ?es"
      using mem by blast
  next
    assume "\<exists>y. (y, i) \<in> set ?es \<and> (y, j) \<in> set ?es"
    then obtain y where y: "(y, i) \<in> set ?es" "(y, j) \<in> set ?es" by blast
    then have "y \<in> set ?ks"
      unfolding position_keys by force
    then have "values_at y ?es \<in> set (extract_position_rows ws)"
      unfolding rows by simp
    with y mem show "\<exists>r \<in> set (extract_position_rows ws). i \<in> set r \<and> j \<in> set r"
      by blast
  qed
qed

section \<open>Properties of padding and of the output frame\<close>

lemma pad_row_short: "length r \<le> n \<Longrightarrow> length (pad_row n r) = n"
  by (simp add: pad_row_def list_times_def) arith

lemma pad_row_long: "n < length r \<Longrightarrow> pad_row n r = r"
  by (simp add: pad_row_def list_times_def)

lemma pad_row_full: "length r = n \<Longrightarrow> pad_row n r = r"
  by (simp add: pad_row_def list_times_def)

lemma pad_row_length: "length (pad_row n r) = max n (length r)"
  by (simp add: pad_row_def list_times_def) arith

lemma normalized_rows_map:
  "normalized_rows headers page = map (pad_row (length headers)) (extract_text_rows page)"
  by (simp add: normalized_rows_def Let_def)

lemma width_upper: "r \<in> set data \<Longrightarrow> length r \<le> width data"
  by (induction data) (auto simp: width_def)

lemma normalized_at_least: "r \<in> set (normalized_rows headers page) \<Longrightarrow> length headers \<le> length r"
  by (auto simp: normalized_rows_map pad_row_length)

lemma filtered_at_least: "r \<in> set (filtered_rows headers page) \<Longrightarrow> length headers \<le> length r"
  by (auto simp: filtered_rows_def normalized_at_least)

lemma DataFrame_rows:
  assumes "DataFrame (filtered_rows headers page) headers = Inr df"
  shows "df_rows df = filtered_rows headers page \<and> df_columns df = headers"
proof (cases "filtered_rows headers page = []")
  case True
  with assms show ?thesis by (auto simp: DataFrame_def)
next
  case False
  with assms have w: "width (filtered_rows headers page) = length headers"
    and df: "df = \<lparr>df_columns = headers,
               df_rows = map (pad_row (length headers)) (filtered_rows headers page)\<rparr>"
    by (auto simp: DataFrame_def split: if_splits)
  have "pad_row (length headers) r = r" if "r \<in> set (filtered_rows headers page)" for r
  proof -
    from that have "length r \<le> length headers" "length headers \<le> length r"
      using width_upper [OF that] w filtered_at_least [OF that] by simp_all
    then show ?thesis by (simp add: pad_row_full)
  qed
  then have "map (pad_row (length headers)) (filtered_rows headers page) = filtered_rows headers page"
    by (simp add: map_idI)
  with df show ?thesis by simp
qed

lemma text_entries_complete: "text_entries (filter complete_word ws) = text_entries ws"
  by (induction ws) (auto simp: text_entries_def complete_word_def split: option.splits)

lemma extract_text_rows_complete:
  "extract_text_rows (filter complete_word ws) = extract_text_rows ws"
  unfolding extract_text_rows_def row_offsets_def lines_by_y_def foldl_add_word
    text_entries_complete ..

lemma position_row_members:
  "r \<in> set (extract_position_rows ws) \<Longrightarrow> i \<in> set r \<Longrightarrow> i < length ws \<and> complete_word (ws ! i)"
proof -
  assume "r \<in> set (extract_position_rows ws)" "i \<in> set r"
  then have "\<exists>r \<in> set (extract_position_rows ws). i \<in> set r \<and> i \<in> set r" by blast
  then show ?thesis
    unfolding in_position_row in_pos_entries_enumerate by blast
qed

lemma complete_has_offset: "complete_word w \<Longrightarrow> \<exists>y. rounded_offset w = Some y"
  by (auto simp: complete_word_def rounded_offset_def)

lemma same_position_row:
  assumes "i < length ws" "j < length ws"
  shows "(\<exists>r \<in> set (extract_position_rows ws). i \<in> set r \<and> j \<in> set r)
      \<longleftrightarrow> complete_word (ws ! i) \<and> complete_word (ws ! j)
          \<and> rounded_offset (ws ! i) = rounded_offset (ws ! j)"
proof
  assume "\<exists>r \<in> set (extract_position_rows ws). i \<in> set r \<and> j \<in> set r"
  then obtain y where "complete_word (ws ! i)" "rounded_offset (ws ! i) = Some y"
    "complete_word (ws ! j)" "rounded_offset (ws ! j) = Some y"
    unfolding in_position_row in_pos_entries_enumerate by blast
  then show "complete_word (ws ! i) \<and> complete_word (ws ! j)
      \<and> rounded_offset (ws ! i) = rounded_offset (ws ! j)"
    by simp
next
  assume a: "complete_word (ws ! i) \<and> complete_word (ws ! j)
      \<and> rounded_offset (ws ! i) = rounded_offset (ws ! j)"
  then obtain y where y: "rounded_offset (ws ! i) = Some y"
    using complete_has_offset by blast
  with a have "rounded_offset (ws ! j) = Some y"
    by simp
  with y a assms show "\<exists>r \<in> set (extract_position_rows ws). i \<in> set r \<and> j \<in> set r"
    unfolding in_position_row in_pos_entries_enumerate by blast
qed

section \<open>Properties of the pipeline\<close>

text \<open>
  C1, as the code has it. A candidate row with at most as many cells as there are headers
  is padded to exactly the header count. A candidate row with more cells than headers is
  left as it is, so its normalized row is longer than the header count. The normalized
  rows of a page are its candidate rows, each padded so.
\<close>

theorem normalized_row_length:
  "(length r \<le> length headers \<longrightarrow> length (pad_row (length headers) r) = length headers)
   \<and> (length headers < length r \<longrightarrow> pad_row (length headers) r = r)
   \<and> normalized_rows headers page = map (pad_row (length headers)) (extract_text_rows page)"
  using pad_row_short [of r "length headers"] pad_row_long [of "length headers" r]
    normalized_rows_map [of headers page]
  by blast

theorem normalized_row_length_witness:
  "length [''Utstein''] \<le> length [''Category'', ''Value'']
   \<and> pad_row (length [''Category'', ''Value'']) [''Utstein''] = [''Utstein'', '''']
   \<and> length [''Category''] < length [''CPR'', ''42%'']
   \<and> pad_row (length [''Category'']) [''CPR'', ''42%''] = [''CPR'', ''42%'']"
proof -
  have a: "pad_row (length [''Category'', ''Value'']) [''Utstein''] = [''Utstein'', '''']"
    by code_simp
  from normalized_row_length [of "[''Utstein'']" "[''Category'', ''Value'']"]
    normalized_row_length [of "[''CPR'', ''42%'']" "[''Category'']"] a
  show ?thesis by simp
qed

text \<open>
  C1 as stated fails: with one declared header and two fragments on the same line, the
  normalized row has two cells.
\<close>

theorem normalized_row_longer_than_headers:
  "normalized_rows [''Category''] [fragment 10 ''CPR'', fragment 10 ''42%''] = [[''CPR'', ''42%'']]
   \<and> length [''CPR'', ''42%''] \<noteq> length [''Category'']"
proof -
  have "normalized_rows [''Category''] [fragment 10 ''CPR'', fragment 10 ''42%'']
      = [[''CPR'', ''42%'']]"
    by code_simp
  then show ?thesis by simp
qed

text \<open>
  C2, as the code has it. With \<open>n\<close> pages in the document, a requested page number \<open>p\<close>
  with \<open>p > n\<close> or \<open>p \<le> -n\<close> makes the page access raise \<open>IndexError\<close>, which ends the
  run at that page with nothing more written. A page number \<open>p\<close> with \<open>-n < p \<le> 0\<close> raises
  nothing: the access selects the page at zero-based index \<open>n + p - 1\<close>, counted from
  the end of the document.
\<close>

theorem page_index_outside_range_halts:
  "(int (length pdf) < p \<or> p \<le> - int (length pdf)
      \<longrightarrow> process_pages timestamp pdf all_headers ((idx, p - 1) # rest) w = (w, Some IndexError))
   \<and> (- int (length pdf) < p \<and> p \<le> 0
      \<longrightarrow> getitem pdf (p - 1) = Inr (pdf ! nat (int (length pdf) + p - 1)))"
proof -
  have "getitem pdf (p - 1) = Inl IndexError" if "int (length pdf) < p \<or> p \<le> - int (length pdf)"
    using that by (auto simp: getitem_def Let_def)
  moreover have "getitem all_headers (int idx) = Inl e \<Longrightarrow> e = IndexError" for e
    by (auto simp: getitem_def Let_def split: if_splits)
  ultimately have "process_pages timestamp pdf all_headers ((idx, p - 1) # rest) w
      = (w, Some IndexError)"
    if "int (length pdf) < p \<or> p \<le> - int (length pdf)"
    using that by (auto split: sum.splits)
  moreover have "getitem pdf (p - 1) = Inr (pdf ! nat (int (length pdf) + p - 1))"
    if "- int (length pdf) < p \<and> p \<le> 0"
    using that by (auto simp: getitem_def Let_def algebra_simps)
  ultimately show ?thesis by blast
qed

theorem page_index_outside_range_halts_witness:
  "int (length [title_page, table_page]) < 3
   \<and> process_pages ''2026-01-01_10-00'' [title_page, table_page] [[''Category'', ''Value'']]
         [(0, 3 - 1)] \<lparr>pdf_accessed = True, written = [], printed = []\<rparr>
        = (\<lparr>pdf_accessed = True, written = [], printed = []\<rparr>, Some IndexError)
   \<and> - int (length [title_page, table_page]) < 0 \<and> (0::int) \<le> 0
   \<and> getitem [title_page, table_page] (0 - 1) = Inr table_page"
proof -
  have a: "int (length [title_page, table_page]) < 3"
    by simp
  have b: "- int (length [title_page, table_page]) < 0 \<and> (0::int) \<le> 0"
    by simp
  from page_index_outside_range_halts
    [of "[title_page, table_page]" 3 "''2026-01-01_10-00''" "[[''Category'', ''Value'']]" 0 "[]"
      "\<lparr>pdf_accessed = True, written = [], printed = []\<rparr>"] a
  have c: "process_pages ''2026-01-01_10-00'' [title_page, table_page] [[''Category'', ''Value'']]
      [(0, 3 - 1)] \<lparr>pdf_accessed = True, written = [], printed = []\<rparr>
    = (\<lparr>pdf_accessed = True, written = [], printed = []\<rparr>, Some IndexError)"
    by blast
  from page_index_outside_range_halts
    [of "[title_page, table_page]" 0 "''2026-01-01_10-00''" "[[''Category'', ''Value'']]" 0 "[]"
      "\<lparr>pdf_accessed = True, written = [], printed = []\<rparr>"] b
  have "getitem [title_page, table_page] (0 - 1) = Inr table_page"
    by simp
  with a b c show ?thesis by blast
qed

text \<open>
  C2 as stated fails: for the requested page number 0 and a document of two pages the run
  raises nothing; it reads the last page and writes it under the name of page 0.
\<close>

theorem page_number_zero_selects_last_page:
  "main ''2026-01-01_10-00'' (Some [title_page, table_page]) [0] [[''Category'', ''Value'']]
     = (\<lparr>pdf_accessed = True,
         written =
           [\<lparr>file_name = ''page_0_cleaned_2026-01-01_10-00.csv'',
             header_row = [''Category'', ''Value''],
             data_rows = [[''Category'', ''Value''], [''Witnessed'', ''Yes'']]\<rparr>],
         printed = [''Saved: page_0_cleaned_2026-01-01_10-00.csv'']\<rparr>,
        None)"
  by code_simp

text \<open>
  C6. The candidate rows of a page are the rows of its rounded vertical offsets taken in
  strictly ascending order: the row at each offset holds the texts of the fragments with
  that rounded offset. The rows that pass the validator are a subsequence of the
  normalized rows, in the same order, and they are the rows written to the output file.
\<close>

theorem rows_ascending_and_order_kept:
  "extract_text_rows page = map (\<lambda>y. texts_at y page) (row_offsets page)
   \<and> sorted_wrt (<) (row_offsets page)
   \<and> normalized_rows headers page = map (pad_row (length headers)) (extract_text_rows page)
   \<and> filtered_rows headers page = filter is_valid_data_row (normalized_rows headers page)
   \<and> subseq (filtered_rows headers page) (normalized_rows headers page)
   \<and> (DataFrame (filtered_rows headers page) headers = Inr df
        \<longrightarrow> data_rows (to_csv df name) = filtered_rows headers page)"
proof -
  have "data_rows (to_csv df name) = filtered_rows headers page"
    if "DataFrame (filtered_rows headers page) headers = Inr df"
    using DataFrame_rows [OF that] by (simp add: to_csv_def)
  with extract_text_rows_by_offset [of page] row_offsets_ascending [of page]
    normalized_rows_map [of headers page] subseq_rows [of headers page]
  show ?thesis by (simp add: filtered_rows_def)
qed

theorem rows_ascending_and_order_kept_witness:
  "row_offsets table_page = [5, 10, 201 / 10]
   \<and> extract_text_rows table_page = [[''Page 3''], [''Category'', ''Value''], [''Witnessed'', ''Yes'']]
   \<and> DataFrame (filtered_rows [''Category'', ''Value''] table_page) [''Category'', ''Value'']
        = Inr \<lparr>df_columns = [''Category'', ''Value''],
               df_rows = [[''Category'', ''Value''], [''Witnessed'', ''Yes'']]\<rparr>
   \<and> filtered_rows [''Category'', ''Value''] table_page
        = [[''Category'', ''Value''], [''Witnessed'', ''Yes'']]"
proof -
  have o: "row_offsets table_page = [5, 10, 201 / 10]"
    by code_simp
  have e: "extract_text_rows table_page
      = [[''Page 3''], [''Category'', ''Value''], [''Witnessed'', ''Yes'']]"
    by code_simp
  have d: "DataFrame (filtered_rows [''Category'', ''Value''] table_page) [''Category'', ''Value'']
      = Inr \<lparr>df_columns = [''Category'', ''Value''],
             df_rows = [[''Category'', ''Value''], [''Witnessed'', ''Yes'']]\<rparr>"
    by code_simp
  from rows_ascending_and_order_kept
    [of table_page "[''Category'', ''Value'']"
      "\<lparr>df_columns = [''Category'', ''Value''],
        df_rows = [[''Category'', ''Value''], [''Witnessed'', ''Yes'']]\<rparr>" "''out.csv''"] d
  have "filtered_rows [''Category'', ''Value''] table_page
      = [[''Category'', ''Value''], [''Witnessed'', ''Yes'']]"
    by (simp add: to_csv_def)
  with o e d show ?thesis by simp
qed

text \<open>
  C7. Two fragments of a page are in the same candidate row if and only if both have a
  vertical offset and a text and their offsets rounded to one decimal place are equal. A
  fragment that lacks one of the two attributes is in no row, and the extraction, which
  has no error result, gives what it gives on the page without such fragments.
\<close>

theorem same_row_iff_same_rounded_offset:
  "extract_text_rows page = map (map (\<lambda>i. text_of (page ! i))) (extract_position_rows page)
   \<and> (\<forall>i j. i < length page \<and> j < length page \<longrightarrow>
         ((\<exists>r \<in> set (extract_position_rows page). i \<in> set r \<and> j \<in> set r)
            \<longleftrightarrow> complete_word (page ! i) \<and> complete_word (page ! j)
                \<and> rounded_offset (page ! i) = rounded_offset (page ! j)))
   \<and> (\<forall>i r. i < length page \<and> \<not> complete_word (page ! i) \<and> r \<in> set (extract_position_rows page)
         \<longrightarrow> i \<notin> set r)
   \<and> extract_text_rows (filter complete_word page) = extract_text_rows page"
proof (intro conjI allI impI)
  show "extract_text_rows page
      = map (map (\<lambda>i. text_of (page ! i))) (extract_position_rows page)"
    by (rule extract_text_rows_positions)
next
  fix i j
  assume "i < length page \<and> j < length page"
  then show "(\<exists>r \<in> set (extract_position_rows page). i \<in> set r \<and> j \<in> set r)
      \<longleftrightarrow> complete_word (page ! i) \<and> complete_word (page ! j)
          \<and> rounded_offset (page ! i) = rounded_offset (page ! j)"
    using same_position_row [of i page j] by simp
next
  fix i r
  assume "i < length page \<and> \<not> complete_word (page ! i) \<and> r \<in> set (extract_position_rows page)"
  then show "i \<notin> set r"
    using position_row_members [of r page i] by blast
next
  show "extract_text_rows (filter complete_word page) = extract_text_rows page"
    by (rule extract_text_rows_complete)
qed

theorem same_row_iff_same_rounded_offset_witness:
  "extract_position_rows table_page = [[5], [1, 4], [0, 2]]
   \<and> extract_text_rows table_page
        = [[''Page 3''], [''Category'', ''Value''], [''Witnessed'', ''Yes'']]
   \<and> (1::nat) < length table_page \<and> (4::nat) < length table_page
   \<and> rounded_offset (table_page ! 1) = rounded_offset (table_page ! 4)
   \<and> (0::nat) < length table_page
   \<and> rounded_offset (table_page ! 1) \<noteq> rounded_offset (table_page ! 0)
   \<and> (3::nat) < length table_page \<and> \<not> complete_word (table_page ! 3)
   \<and> 3 \<notin> set (concat (extract_position_rows table_page))"
proof -
  have p: "extract_position_rows table_page = [[5], [1, 4], [0, 2]]"
    by code_simp
  have t: "extract_text_rows table_page
      = [[''Page 3''], [''Category'', ''Value''], [''Witnessed'', ''Yes'']]"
    by code_simp
  have l: "length table_page = 6"
    by code_simp
  have k: "rounded_offset (table_page ! 1) = rounded_offset (table_page ! 4)"
    by code_simp
  have n: "rounded_offset (table_page ! 1) \<noteq> rounded_offset (table_page ! 0)"
    by code_simp
  have c: "\<not> complete_word (table_page ! 3)"
    by code_simp
  from same_row_iff_same_rounded_offset [of table_page]
  have "3 < length table_page \<and> \<not> complete_word (table_page ! 3)
      \<and> r \<in> set (extract_position_rows table_page) \<longrightarrow> 3 \<notin> set r" for r
    by blast
  with l c have "\<forall>r \<in> set (extract_position_rows table_page). 3 \<notin> set r"
    by simp
  then have "3 \<notin> set (concat (extract_position_rows table_page))"
    by simp
  with p t l k n c show ?thesis by simp
qed

text \<open>
  C8. When the number of header sets differs from the number of requested pages, the run
  ends with the error \<open>Number of --headers sets must match number of --pages.\<close>, the PDF
  has not been accessed, and no file has been written.
\<close>

theorem header_count_mismatch_halts:
  assumes "length all_headers \<noteq> length pages"
  shows "main timestamp pdf_file pages all_headers
    = (\<lparr>pdf_accessed = False, written = [], printed = []\<rparr>,
       Some (ValueError ''Number of --headers sets must match number of --pages.''))"
  using assms by (simp add: main_def Let_def)

theorem header_count_mismatch_halts_witness:
  "length [[''Category'', ''Value'']] \<noteq> length [1, 2 :: int]
   \<and> main ''2026-01-01_10-00'' (Some [title_page, table_page]) [1, 2] [[''Category'', ''Value'']]
        = (\<lparr>pdf_accessed = False, written = [], printed = []\<rparr>,
           Some (ValueError ''Number of --headers sets must match number of --pages.''))"
proof -
  have h: "length [[''Category'', ''Value'']] \<noteq> length [1, 2 :: int]"
    by simp
  from header_count_mismatch_halts [OF h] h show ?thesis by blast
qed

text \<open>
  C9. A page with no fragment yields no candidate row. When no normalized row of a page
  passes the validator, the loop raises nothing: it writes the file of that page with
  the header row and no data row, reports it, and goes on with the remaining pages.
\<close>

theorem empty_result_writes_header_only:
  "extract_text_rows [] = []
   \<and> (getitem pdf page_num = Inr page \<and> getitem all_headers (int idx) = Inr headers
        \<and> (\<forall>r \<in> set (normalized_rows headers page). \<not> is_valid_data_row r)
      \<longrightarrow> process_pages timestamp pdf all_headers ((idx, page_num) # rest) w
            = process_pages timestamp pdf all_headers rest
                (w\<lparr>written := written w @
                      [\<lparr>file_name = output_name timestamp page_num, header_row = headers,
                        data_rows = []\<rparr>],
                   printed := printed w @ [''Saved: '' @ output_name timestamp page_num]\<rparr>))"
proof -
  have a: "extract_text_rows [] = []"
    by (simp add: extract_text_rows_def row_offsets_def lines_by_y_def)
  have b: "process_pages timestamp pdf all_headers ((idx, page_num) # rest) w
            = process_pages timestamp pdf all_headers rest
                (w\<lparr>written := written w @
                      [\<lparr>file_name = output_name timestamp page_num, header_row = headers,
                        data_rows = []\<rparr>],
                   printed := printed w @ [''Saved: '' @ output_name timestamp page_num]\<rparr>)"
    if "getitem pdf page_num = Inr page" "getitem all_headers (int idx) = Inr headers"
      "\<forall>r \<in> set (normalized_rows headers page). \<not> is_valid_data_row r"
  proof -
    from that(3) have "filtered_rows headers page = []"
      by (simp add: filtered_rows_def filter_empty_conv)
    with that(1,2) show ?thesis
      by (simp add: DataFrame_def to_csv_def)
  qed
  from a b show ?thesis by blast
qed

theorem empty_result_writes_header_only_witness:
  "getitem [title_page, table_page] 0 = Inr title_page
   \<and> filter is_valid_data_row (normalized_rows [''Metric'', ''Rate''] title_page) = []
   \<and> process_pages ''2026-01-01_10-00'' [title_page, table_page]
         [[''Metric'', ''Rate''], [''Category'', ''Value'']] [(0, 0), (1, 1)]
         \<lparr>pdf_accessed = True, written = [], printed = []\<rparr>
        = (\<lparr>pdf_accessed = True,
            written =
              [\<lparr>file_name = ''page_1_cleaned_2026-01-01_10-00.csv'',
                header_row = [''Metric'', ''Rate''], data_rows = []\<rparr>,
               \<lparr>file_name = ''page_2_cleaned_2026-01-01_10-00.csv'',
                header_row = [''Category'', ''Value''],
                data_rows = [[''Category'', ''Value''], [''Witnessed'', ''Yes'']]\<rparr>],
            printed =
              [''Saved: page_1_cleaned_2026-01-01_10-00.csv'',
               ''Saved: page_2_cleaned_2026-01-01_10-00.csv'']\<rparr>,
           None)"
proof -
  have g: "getitem [title_page, table_page] 0 = Inr title_page"
    by code_simp
  have h: "getitem [[''Metric'', ''Rate''], [''Category'', ''Value'']] (int 0)
      = Inr [''Metric'', ''Rate'']"
    by code_simp
  have v: "\<forall>r \<in> set (normalized_rows [''Metric'', ''Rate''] title_page). \<not> is_valid_data_row r"
    by code_simp
  have n: "output_name ''2026-01-01_10-00'' 0 = ''page_1_cleaned_2026-01-01_10-00.csv''"
    by code_simp
  have r: "process_pages ''2026-01-01_10-00'' [title_page, table_page]
      [[''Metric'', ''Rate''], [''Category'', ''Value'']] [(1, 1)]
      \<lparr>pdf_accessed = True,
        written = [\<lparr>file_name = ''page_1_cleaned_2026-01-01_10-00.csv'',
                    header_row = [''Metric'', ''Rate''], data_rows = []\<rparr>],
        printed = [''Saved: page_1_cleaned_2026-01-01_10-00.csv'']\<rparr>
    = (\<lparr>pdf_accessed = True,
        written =
          [\<lparr>file_name = ''page_1_cleaned_2026-01-01_10-00.csv'',
            header_row = [''Metric'', ''Rate''], data_rows = []\<rparr>,
           \<lparr>file_name = ''page_2_cleaned_2026-01-01_10-00.csv'',
            header_row = [''Category'', ''Value''],
            data_rows = [[''Category'', ''Value''], [''Witnessed'', ''Yes'']]\<rparr>],
        printed =
          [''Saved: page_1_cleaned_2026-01-01_10-00.csv'',
           ''Saved: page_2_cleaned_2026-01-01_10-00.csv'']\<rparr>,
       None)"
    by code_simp
  from empty_result_writes_header_only
    [where pdf = "[title_page, table_page]" and page_num = 0 and page = title_page
      and all_headers = "[[''Metric'', ''Rate''], [''Category'', ''Value'']]" and idx = 0
      and headers = "[''Metric'', ''Rate'']" and timestamp = "''2026-01-01_10-00''"
      and rest = "[(1, 1)]" and w = "\<lparr>pdf_accessed = True, written = [], printed = []\<rparr>"]
    g h v
  have "process_pages ''2026-01-01_10-00'' [title_page, table_page]
      [[''Metric'', ''Rate''], [''Category'', ''Value'']] [(0, 0), (1, 1)]
      \<lparr>pdf_accessed = True, written = [], printed = []\<rparr>
    = process_pages ''2026-01-01_10-00'' [title_page, table_page]
      [[''Metric'', ''Rate''], [''Category'', ''Value'']] [(1, 1)]
      \<lparr>pdf_accessed = True,
        written = [\<lparr>file_name = ''page_1_cleaned_2026-01-01_10-00.csv'',
                    header_row = [''Metric'', ''Rate''], data_rows = []\<rparr>],
        printed = [''Saved: page_1_cleaned_2026-01-01_10-00.csv'']\<rparr>"
    unfolding n by simp
  moreover from v
  have "filter is_valid_data_row (normalized_rows [''Metric'', ''Rate''] title_page) = []"
    by (simp add: filter_empty_conv)
  ultimately show ?thesis using g r by simp
qed

end
